theory Spec2Isabelle
  imports Main "HOL-Library.Sublist"
begin

section \<open>EvoScholar: the self-improving research agent of \<open>evo_scholar.py\<close>\<close>

text \<open>
  Python's \<open>str\<close> is modelled as \<open>string\<close>: every \<open>char\<close> stands for one code point
  below 256. Python's unbounded \<open>int\<close> is \<open>int\<close>. The agent talks to two providers (the
  arXiv search and the chat completion service), prints to standard output and writes one
  file; these effects are recorded in an explicit world that every effectful method takes
  and returns. A provider call that raises is the \<open>Inl\<close> branch of its result, and it
  propagates through every caller as the exception does.
\<close>

subsection \<open>String primitives of Python used by the agent\<close>

text \<open>
  \<open>str.isspace\<close> on the code points below 256: TAB, LF, VT, FF, CR, the separators
  0x1C to 0x1F, SPACE, NEL (0x85) and the no-break space (0xA0). \<open>str.split()\<close> and
  \<open>str.strip()\<close> without arguments use this class.
\<close>

definition isspace :: "char \<Rightarrow> bool" where
  "isspace c = (of_char c \<in> set [9, 10, 11, 12, 13, 28, 29, 30, 31, 32, 133, 160 :: nat])"

text \<open>
  \<open>text.split()\<close>: the maximal runs of non-whitespace characters, in order. \<open>split_words\<close>
  scans the text once, \<open>cur\<close> being the word read so far.
\<close>

fun split_words :: "string \<Rightarrow> string \<Rightarrow> string list" where
  "split_words cur [] = (if cur = [] then [] else [cur])"
| "split_words cur (c # cs) =
     (if isspace c then (if cur = [] then split_words [] cs else cur # split_words [] cs)
      else split_words (cur @ [c]) cs)"

definition py_split :: "string \<Rightarrow> string list" where
  "py_split t = split_words [] t"

text \<open>\<open>text.strip()\<close>: leading and trailing whitespace removed.\<close>

definition strip :: "string \<Rightarrow> string" where
  "strip t = rev (dropWhile isspace (rev (dropWhile isspace t)))"

text \<open>\<open>sub in text\<close> on strings: \<open>sub\<close> occurs in \<open>text\<close> as a contiguous substring.\<close>

fun py_in :: "string \<Rightarrow> string \<Rightarrow> bool" where
  "py_in sub [] = (sub = [])"
| "py_in sub (c # cs) = (prefix sub (c # cs) \<or> py_in sub cs)"

text \<open>\<open>sep.join(parts)\<close>.\<close>

fun py_join :: "string \<Rightarrow> string list \<Rightarrow> string" where
  "py_join sep [] = []"
| "py_join sep [x] = x"
| "py_join sep (x # y # ys) = x @ sep @ py_join sep (y # ys)"

text \<open>The decimal rendering of an integer, as an f-string field \<open>{n}\<close> produces it.\<close>

fun digits :: "nat \<Rightarrow> string" where
  "digits n = (if n < 10 then [''0123456789'' ! n]
               else digits (n div 10) @ [''0123456789'' ! (n mod 10)])"

definition str_int :: "int \<Rightarrow> string" where
  "str_int i = (if i < 0 then CHR ''-'' # digits (nat (- i)) else digits (nat i))"

subsection \<open>\<open>evaluate_paper\<close>\<close>

definition required_sections :: "string list" where
  "required_sections =
     [''Title:'', ''Abstract:'', ''Introduction:'', ''Proposed Method:'', ''Conclusion:'']"

definition word_count :: "string \<Rightarrow> int" where
  "word_count paper_text = int (length (py_split paper_text))"

definition missing_sections :: "string \<Rightarrow> string list" where
  "missing_sections paper_text = filter (\<lambda>sec. \<not> py_in sec paper_text) required_sections"

text \<open>
  The feedback string is built up in three steps, as the source does with \<open>+=\<close>; the
  result is stripped.
\<close>

definition evaluate_paper :: "string \<Rightarrow> int \<Rightarrow> string" where
  "evaluate_paper paper_text max_words =
     (let feedback0 = [];
          feedback1 = (if word_count paper_text > max_words
                       then feedback0 @ ''Paper is too long by ''
                              @ str_int (word_count paper_text - max_words) @ '' words. ''
                       else feedback0);
          feedback2 = (if missing_sections paper_text \<noteq> []
                       then feedback1 @ ''Missing sections: ''
                              @ py_join '', '' (missing_sections paper_text) @ ''. ''
                       else feedback1);
          feedback3 = (if feedback2 = []
                       then ''Success! Paper length is ''
                              @ str_int (word_count paper_text) @ '' words.''
                       else feedback2)
      in strip feedback3)"

subsection \<open>\<open>extract_text\<close>\<close>

text \<open>
  \<open>re.search(r"```(?:python)?\n(.*?)\n```", text, re.DOTALL)\<close>, by the steps of the
  backtracking matcher on this pattern. With \<open>re.DOTALL\<close> the dot matches every
  character, so the lazy group \<open>(.*?)\<close> followed by the literal \<open>\n```\<close> takes the
  shortest text after which that literal stands: \<open>lazy_body\<close> returns it, or \<open>None\<close> when
  the literal never follows.
\<close>

definition closing_fence :: string where
  "closing_fence = ''\<newline>```''"

fun lazy_body :: "string \<Rightarrow> string option" where
  "lazy_body [] = None"
| "lazy_body (c # cs) =
     (if prefix closing_fence (c # cs) then Some []
      else map_option ((#) c) (lazy_body cs))"

text \<open>The rest of the pattern after the optional tag: \<open>\n(.*?)\n```\<close>.\<close>

definition newline_body :: "string \<Rightarrow> string option" where
  "newline_body r = (if prefix ''\<newline>'' r then lazy_body (drop 1 r) else None)"

text \<open>
  A match that starts at the head of \<open>t\<close>, giving group 1. The optional group
  \<open>(?:python)?\<close> is greedy: the matcher first tries with the tag and, when the rest
  fails, again without it.
\<close>

definition match_at :: "string \<Rightarrow> string option" where
  "match_at t =
     (if prefix ''```'' t then
        (case (if prefix ''python'' (drop 3 t) then newline_body (drop 9 t) else None) of
           Some g \<Rightarrow> Some g
         | None \<Rightarrow> newline_body (drop 3 t))
      else None)"

text \<open>\<open>re.search\<close> tries the start positions from left to right; the result is group 1.\<close>

fun re_search :: "string \<Rightarrow> string option" where
  "re_search [] = match_at []"
| "re_search (c # cs) =
     (case match_at (c # cs) of Some g \<Rightarrow> Some g | None \<Rightarrow> re_search cs)"

definition extract_text :: "string \<Rightarrow> string" where
  "extract_text t = (case re_search t of Some g \<Rightarrow> strip g | None \<Rightarrow> strip t)"

text \<open>
  The number of fenced blocks of a text: the number of positions at which the pattern
  matches. It is used to state what a text with no fenced block, or with exactly one, is.
\<close>

fun fence_count :: "string \<Rightarrow> nat" where
  "fence_count [] = 0"
| "fence_count (c # cs) = (if match_at (c # cs) = None then 0 else 1) + fence_count cs"

subsection \<open>Providers, effects and the world\<close>

text \<open>
  The two providers are outside the program. A call either returns or raises; the error a
  provider raises reaches the caller of \<open>run\<close> unmodified.
\<close>

datatype error = SearchError string | ChatError string

text \<open>What the agent reads of an \<open>arxiv.Result\<close>: \<open>title\<close>, \<open>summary\<close>, \<open>entry_id\<close>.\<close>

record arxiv_result =
  result_title :: string
  result_summary :: string
  result_entry_id :: string

text \<open>The dictionary \<open>fetch_latest_papers\<close> builds for each result.\<close>

record paper =
  title :: string
  abstract :: string
  link :: string

text \<open>
  The three \<open>print\<close> statements of \<open>run\<close>, and the text each one writes to standard
  output.
\<close>

datatype line = IterationFeedback nat string | FinalBanner | FinalPaper string

fun printed :: "line \<Rightarrow> string" where
  "printed (IterationFeedback i feedback) =
     ''Iteration '' @ str_int (int i) @ '' feedback: '' @ feedback"
| "printed FinalBanner = ''\<newline>Final Version of the Paper:''"
| "printed (FinalPaper paper_text) = paper_text"

text \<open>
  The effects of a run, in the order they happen: the outbound search request, an entry of
  \<open>generate_paper\<close> (with its prompt), the outbound chat completion request (model and
  messages), \<open>open(name, "w")\<close> followed by \<open>write(content)\<close>, and a \<open>print\<close>.
\<close>

datatype event =
    ArxivSearch string nat
  | GenerateCall string
  | ChatCompletion string "(string \<times> string) list"
  | FileWrite string string
  | Print line

text \<open>
  The world: the files (a full overwrite replaces the content), the lines printed so far
  and the log of effects. Writing a file and printing are taken to succeed.
\<close>

record world =
  files :: "string \<rightharpoonup> string"
  stdout :: "string list"
  events :: "event list"

text \<open>
  A provider answers a request, given the effects so far (so that it may answer the same
  request differently at different times). \<open>arxiv_results\<close> stands for
  \<open>arxiv.Client().results(search)\<close> read to its end, \<open>chat_create\<close> for
  \<open>client.chat.completions.create(...)\<close> followed by \<open>.choices[0].message.content\<close>.
\<close>

record providers =
  arxiv_results :: "event list \<Rightarrow> string \<Rightarrow> nat \<Rightarrow> error + arxiv_result list"
  chat_create :: "event list \<Rightarrow> string \<Rightarrow> (string \<times> string) list \<Rightarrow> error + string"

text \<open>The fields \<open>__init__\<close> sets; the client is part of the chat provider.\<close>

record agent =
  model :: string
  iterations :: int
  test_mode :: bool

definition emit :: "event \<Rightarrow> world \<Rightarrow> world" where
  "emit e w = w\<lparr>events := events w @ [e]\<rparr>"

definition write_file :: "string \<Rightarrow> string \<Rightarrow> world \<Rightarrow> world" where
  "write_file name content w =
     emit (FileWrite name content) (w\<lparr>files := (files w)(name \<mapsto> content)\<rparr>)"

definition print_out :: "line \<Rightarrow> world \<Rightarrow> world" where
  "print_out out w = emit (Print out) (w\<lparr>stdout := stdout w @ [printed out]\<rparr>)"

subsection \<open>\<open>generate_paper\<close> and \<open>refine_paper\<close>\<close>

definition dummy_paper :: string where
  "dummy_paper =
     ''Title: Dummy Research Paper\<newline>''
     @ ''Abstract: This is a dummy abstract for testing purposes.\<newline>''
     @ ''Introduction: An introduction to the dummy paper.\<newline>''
     @ ''Proposed Method: A dummy method is proposed.\<newline>''
     @ ''Conclusion: The paper concludes with dummy insights.''"

definition chat_messages :: "string \<Rightarrow> (string \<times> string) list" where
  "chat_messages prompt =
     [(''system'', ''You are an AI research paper generator.''), (''user'', prompt)]"

definition generate_paper ::
  "agent \<Rightarrow> providers \<Rightarrow> string \<Rightarrow> world \<Rightarrow> (error + string) \<times> world" where
  "generate_paper self P prompt w =
     (let w1 = emit (GenerateCall prompt) w in
      if test_mode self then (Inr dummy_paper, w1)
      else
        (let w2 = emit (ChatCompletion (model self) (chat_messages prompt)) w1 in
         case chat_create P (events w1) (model self) (chat_messages prompt) of
           Inl e \<Rightarrow> (Inl e, w2)
         | Inr content \<Rightarrow> (Inr (extract_text content), w2)))"

definition refine_prompt :: "string \<Rightarrow> string \<Rightarrow> string" where
  "refine_prompt paper_text feedback =
     ''Refine the following research paper based on this feedback:\<newline>'' @ feedback
     @ ''\<newline>\<newline>''
     @ ''Paper:\<newline>'' @ paper_text @ ''\<newline>\<newline>''
     @ ''Ensure the paper is concise (under 500 words), introduces a novel interdisciplinary concept ''
     @ ''by blending ideas from different STEM fields, and includes the sections: Title, Abstract, ''
     @ ''Introduction, Proposed Method, and Conclusion.''"

definition refine_paper ::
  "agent \<Rightarrow> providers \<Rightarrow> string \<Rightarrow> string \<Rightarrow> world \<Rightarrow> (error + string) \<times> world" where
  "refine_paper self P paper_text feedback w =
     generate_paper self P (refine_prompt paper_text feedback) w"

subsection \<open>\<open>fetch_latest_papers\<close>\<close>

text \<open>\<open>summary.replace("\n", " ")\<close>.\<close>

definition replace_newlines :: "string \<Rightarrow> string" where
  "replace_newlines s = map (\<lambda>c. if c = CHR ''\<newline>'' then CHR '' '' else c) s"

definition to_paper :: "arxiv_result \<Rightarrow> paper" where
  "to_paper result =
     \<lparr>title = result_title result,
      abstract = replace_newlines (result_summary result),
      link = result_entry_id result\<rparr>"

text \<open>
  There is no test on \<open>test_mode\<close> in this method: the search request goes out in every
  mode.
\<close>

definition fetch_latest_papers ::
  "agent \<Rightarrow> providers \<Rightarrow> nat \<Rightarrow> string \<Rightarrow> world \<Rightarrow> (error + paper list) \<times> world" where
  "fetch_latest_papers self P max_results query w =
     (let w1 = emit (ArxivSearch query max_results) w in
      case arxiv_results P (events w) query max_results of
        Inl e \<Rightarrow> (Inl e, w1)
      | Inr results \<Rightarrow> (Inr (map to_paper results), w1))"

subsection \<open>\<open>run\<close>\<close>

definition default_query :: string where
  "default_query = ''interdisciplinary research AI biology physics''"

definition file_name :: string where
  "file_name = ''generated_paper.txt''"

definition base_prompt :: "paper list \<Rightarrow> string" where
  "base_prompt latest_papers =
     (let paper_summaries =
            py_join ''\<newline>''
              (map (\<lambda>p. ''Title: '' @ title p @ ''\<newline>Abstract: '' @ abstract p) latest_papers)
      in ''Generate a new interdisciplinary research paper inspired by the following arXiv paper summaries:\<newline>''
         @ paper_summaries @ ''\<newline>\<newline>''
         @ ''Your paper should be concise (under 500 words) and include the sections: Title, Abstract, ''
         @ ''Introduction, Proposed Method, and Conclusion. Propose a novel concept by blending ideas from different STEM fields.'')"

text \<open>
  The loop \<open>for i in range(self.iterations)\<close>: \<open>i\<close> is the loop variable and \<open>n\<close> the
  number of iterations still to run.
\<close>

fun refine_loop ::
  "agent \<Rightarrow> providers \<Rightarrow> nat \<Rightarrow> nat \<Rightarrow> string \<Rightarrow> world \<Rightarrow> (error + string) \<times> world" where
  "refine_loop self P i 0 paper_text w = (Inr paper_text, w)"
| "refine_loop self P i (Suc n) paper_text w =
     (let w1 = write_file file_name paper_text w;
          feedback = evaluate_paper paper_text 500;
          w2 = print_out (IterationFeedback (i + 1) feedback) w1
      in case refine_paper self P paper_text feedback w2 of
           (Inl e, w3) \<Rightarrow> (Inl e, w3)
         | (Inr refined, w3) \<Rightarrow> refine_loop self P (i + 1) n refined w3)"

definition run :: "agent \<Rightarrow> providers \<Rightarrow> world \<Rightarrow> (error + unit) \<times> world" where
  "run self P w =
     (case fetch_latest_papers self P 5 default_query w of
        (Inl e, w1) \<Rightarrow> (Inl e, w1)
      | (Inr latest_papers, w1) \<Rightarrow>
          (case generate_paper self P (base_prompt latest_papers) w1 of
             (Inl e, w2) \<Rightarrow> (Inl e, w2)
           | (Inr paper_text, w2) \<Rightarrow>
               (case refine_loop self P 0 (nat (iterations self)) paper_text w2 of
                  (Inl e, w3) \<Rightarrow> (Inl e, w3)
                | (Inr final_text, w3) \<Rightarrow>
                    (Inr (),
                     write_file file_name final_text
                       (print_out (FinalPaper final_text) (print_out FinalBanner w3))))))"

subsection \<open>Notions used to state the claims about \<open>run\<close>\<close>

text \<open>The files after a sequence of effects: each write replaces the file's content.\<close>

fun apply_event :: "event \<Rightarrow> (string \<rightharpoonup> string) \<Rightarrow> (string \<rightharpoonup> string)" where
  "apply_event (FileWrite name content) F = F(name \<mapsto> content)"
| "apply_event _ F = F"

definition files_after :: "event list \<Rightarrow> (string \<rightharpoonup> string) \<Rightarrow> (string \<rightharpoonup> string)" where
  "files_after es F = fold apply_event es F"

text \<open>The effects a call added to the log.\<close>

definition new_events :: "world \<Rightarrow> world \<Rightarrow> event list" where
  "new_events w w' = drop (length (events w)) (events w')"




text \<open>
  The schedule of the specification. A generator call is its entry and, outside test mode,
  one chat completion request. Iteration \<open>i\<close> on the draft \<open>d\<close> persists \<open>d\<close>, evaluates it,
  prints the feedback under the number \<open>i + 1\<close> and calls the generator with the refine
  prompt; \<open>schedule_iterations\<close> takes the list of all drafts, the last of which is not
  iterated on.
\<close>

definition schedule_generate :: "agent \<Rightarrow> string \<Rightarrow> event list" where
  "schedule_generate self prompt =
     (if test_mode self then [GenerateCall prompt]
      else [GenerateCall prompt, ChatCompletion (model self) (chat_messages prompt)])"



text \<open>
  A log keeps feedback and file together when, at each printed feedback line, the output
  file holds a text \<open>d\<close>, the feedback is the evaluation of \<open>d\<close>, and the next effect is the
  generator call on the refine prompt built from \<open>d\<close> and that feedback: \<open>d\<close> is the draft
  the loop holds. \<open>F\<close> is the files before the log.
\<close>

fun feedback_matches_file :: "(string \<rightharpoonup> string) \<Rightarrow> event list \<Rightarrow> bool" where
  "feedback_matches_file F [] = True"
| "feedback_matches_file F (Print (IterationFeedback i feedback) # es) =
     ((case F file_name of
         None \<Rightarrow> False
       | Some d \<Rightarrow> feedback = evaluate_paper d 500
                   \<and> prefix [GenerateCall (refine_prompt d feedback)] es)
      \<and> feedback_matches_file F es)"
| "feedback_matches_file F (e # es) = feedback_matches_file (apply_event e F) es"

text \<open>Concrete agents, providers and worlds on which the claims are tried.\<close>

definition world0 :: world where
  "world0 = \<lparr>files = Map.empty, stdout = [], events = []\<rparr>"

definition test_agent :: agent where
  "test_agent = \<lparr>model = ''grok-2-latest'', iterations = 1, test_mode = True\<rparr>"


text \<open>No network: both providers raise.\<close>

definition offline :: providers where
  "offline =
     \<lparr>arxiv_results = (\<lambda>h query max_results. Inl (SearchError ''connection failed'')),
      chat_create = (\<lambda>h m msgs. Inl (ChatError ''connection failed''))\<rparr>"

text \<open>
  A network where the search returns one result and the chat service answers every request
  with a fenced block around a one-line paper.
\<close>

definition online :: providers where
  "online =
     \<lparr>arxiv_results = (\<lambda>h query max_results.
         Inr [\<lparr>result_title = ''T'', result_summary = ''a\<newline>b'', result_entry_id = ''id''\<rparr>]),
      chat_create = (\<lambda>h m msgs. Inr ''```\<newline>Title: X\<newline>```'')\<rparr>"


subsection \<open>Facts about the string primitives\<close>

lemma py_in_iff_sublist: "py_in sub t \<longleftrightarrow> sublist sub t"
  by (induction t) (auto simp: sublist_Cons_right)

lemma strip_trailing:
  assumes "t \<noteq> []" and "\<not> isspace (hd t)" and "\<not> isspace (last t)"
    and "\<forall>c \<in> set ws. isspace c"
  shows "strip (t @ ws) = t"
proof -
  from assms(1,2) have a: "dropWhile isspace (t @ ws) = t @ ws"
    by (cases t) simp_all
  from assms(4) have "dropWhile isspace (rev ws @ rev t) = dropWhile isspace (rev t)"
    by (intro dropWhile_append2) simp
  also from assms(1,3) have "\<dots> = rev t"
    by (cases "rev t") (simp_all add: last_rev [symmetric] hd_rev)
  finally show ?thesis
    using a by (simp add: strip_def)
qed

lemma prefix_py_in: "prefix sub t \<Longrightarrow> py_in sub t"
  by (simp add: py_in_iff_sublist prefix_imp_sublist)

lemma py_in_append_left: "py_in sub (sub @ t)"
  by (simp add: prefix_py_in)

lemma py_in_append_right: "py_in sub (t @ sub)"
  by (simp add: py_in_iff_sublist)

lemma isspace_space [simp]: "isspace CHR '' ''"
  by (simp add: isspace_def)

lemma evaluate_paper_success:
  assumes "word_count t \<le> mw" and "missing_sections t = []"
  shows "evaluate_paper t mw = ''Success! Paper length is '' @ str_int (word_count t) @ '' words.''"
proof -
  have "strip ((''Success! Paper length is '' @ str_int (word_count t) @ '' words.'') @ [])
          = ''Success! Paper length is '' @ str_int (word_count t) @ '' words.''"
    by (rule strip_trailing) (simp_all add: isspace_def)
  with assms show ?thesis
    by (simp add: evaluate_paper_def Let_def)
qed

lemma evaluate_paper_too_long:
  assumes "word_count t > mw" and "missing_sections t = []"
  shows "evaluate_paper t mw
           = ''Paper is too long by '' @ str_int (word_count t - mw) @ '' words.''"
proof -
  have "strip ((''Paper is too long by '' @ str_int (word_count t - mw) @ '' words.'') @ '' '')
          = ''Paper is too long by '' @ str_int (word_count t - mw) @ '' words.''"
    by (rule strip_trailing) (simp_all add: isspace_def)
  with assms show ?thesis
    by (simp add: evaluate_paper_def Let_def)
qed

lemma evaluate_paper_missing:
  assumes "word_count t \<le> mw" and "missing_sections t \<noteq> []"
  shows "evaluate_paper t mw
           = ''Missing sections: '' @ py_join '', '' (missing_sections t) @ ''.''"
proof -
  have "strip ((''Missing sections: '' @ py_join '', '' (missing_sections t) @ ''.'') @ '' '')
          = ''Missing sections: '' @ py_join '', '' (missing_sections t) @ ''.''"
    by (rule strip_trailing) (simp_all add: isspace_def)
  with assms show ?thesis
    by (simp add: evaluate_paper_def Let_def)
qed

lemma evaluate_paper_too_long_and_missing:
  assumes "word_count t > mw" and "missing_sections t \<noteq> []"
  shows "evaluate_paper t mw
           = ''Paper is too long by '' @ str_int (word_count t - mw) @ '' words. ''
             @ ''Missing sections: '' @ py_join '', '' (missing_sections t) @ ''.''"
proof -
  have "strip ((''Paper is too long by '' @ str_int (word_count t - mw) @ '' words. ''
             @ ''Missing sections: '' @ py_join '', '' (missing_sections t) @ ''.'') @ '' '')
          = ''Paper is too long by '' @ str_int (word_count t - mw) @ '' words. ''
             @ ''Missing sections: '' @ py_join '', '' (missing_sections t) @ ''.''"
    by (rule strip_trailing) (simp_all add: isspace_def)
  with assms show ?thesis
    by (simp add: evaluate_paper_def Let_def)
qed

subsection \<open>Claims about \<open>evaluate_paper\<close>\<close>

text \<open>
  C2 (as stated): \<open>evaluate_paper\<close> on the text
  \<open>"Title: A\nAbstract: B\nIntroduction: C\nProposed Method: D\nConclusion: E"\<close> with
  \<open>max_words = 500\<close> returns exactly \<open>"Success! Paper length is 10 words."\<close>. It does
  not: \<open>Proposed Method:\<close> is two whitespace-delimited tokens, so the text has 11.
\<close>

theorem evaluate_paper_example_not_10_words:
  "evaluate_paper
     ''Title: A\<newline>Abstract: B\<newline>Introduction: C\<newline>Proposed Method: D\<newline>Conclusion: E'' 500
     \<noteq> ''Success! Paper length is 10 words.''"
  by code_simp

text \<open>
  C2 (amended): on that text and \<open>max_words = 500\<close>, \<open>evaluate_paper\<close> returns exactly
  \<open>"Success! Paper length is 11 words."\<close>, 11 being the number of whitespace-delimited
  tokens of the text.
\<close>

theorem evaluate_paper_example_11_words:
  "evaluate_paper
     ''Title: A\<newline>Abstract: B\<newline>Introduction: C\<newline>Proposed Method: D\<newline>Conclusion: E'' 500
     = ''Success! Paper length is 11 words.''
   \<and> length (py_split
     ''Title: A\<newline>Abstract: B\<newline>Introduction: C\<newline>Proposed Method: D\<newline>Conclusion: E'') = 11"
  by code_simp

text \<open>
  C4: for every text \<open>t\<close> and integer \<open>max_words\<close>, if the number of whitespace-delimited
  tokens of \<open>t\<close> is at most \<open>max_words\<close> and each of the five required markers occurs in
  \<open>t\<close> as a substring, then \<open>evaluate_paper t max_words\<close> contains \<open>"Success!"\<close>.
\<close>

theorem evaluate_paper_success_when_complete:
  assumes "word_count t \<le> max_words"
    and "py_in ''Title:'' t" and "py_in ''Abstract:'' t" and "py_in ''Introduction:'' t"
    and "py_in ''Proposed Method:'' t" and "py_in ''Conclusion:'' t"
  shows "py_in ''Success!'' (evaluate_paper t max_words)"
proof -
  from assms(2-) have "missing_sections t = []"
    by (simp add: missing_sections_def required_sections_def)
  with assms(1) have "evaluate_paper t max_words
      = ''Success!'' @ '' Paper length is '' @ str_int (word_count t) @ '' words.''"
    by (simp add: evaluate_paper_success)
  then show ?thesis
    by (simp only: py_in_append_left)
qed

theorem evaluate_paper_success_when_complete_witness:
  "py_in ''Success!''
     (evaluate_paper
        ''Title: T Abstract: A Introduction: I Proposed Method: M Conclusion: C'' 11)"
proof -
  have "word_count ''Title: T Abstract: A Introduction: I Proposed Method: M Conclusion: C'' \<le> 11"
    by code_simp
  then show ?thesis
    by (rule evaluate_paper_success_when_complete) code_simp+
qed

text \<open>
  C6: for every text \<open>t\<close> and integer \<open>max_words\<close> such that the number of
  whitespace-delimited tokens of \<open>t\<close> exceeds \<open>max_words\<close>, \<open>evaluate_paper t max_words\<close>
  contains \<open>"Paper is too long by {word_count - max_words} words."\<close>, with the exact
  difference rendered in decimal.
\<close>

theorem evaluate_paper_reports_overflow:
  assumes "word_count t > max_words"
  shows "py_in (''Paper is too long by '' @ str_int (word_count t - max_words) @ '' words.'')
           (evaluate_paper t max_words)"
proof (cases "missing_sections t = []")
  case True
  with assms show ?thesis
    by (simp only: evaluate_paper_too_long py_in_append_right [of _ "[]", simplified])
next
  case False
  let ?a = "''Paper is too long by '' @ str_int (word_count t - max_words) @ '' words.''"
  from assms False have "evaluate_paper t max_words
      = ?a @ '' Missing sections: '' @ py_join '', '' (missing_sections t) @ ''.''"
    by (simp add: evaluate_paper_too_long_and_missing)
  then show ?thesis
    by (simp only: py_in_append_left)
qed

theorem evaluate_paper_reports_overflow_witness:
  "py_in ''Paper is too long by 3 words.'' (evaluate_paper ''a b c d e'' 2)"
proof -
  have "word_count ''a b c d e'' > 2"
    by code_simp
  from evaluate_paper_reports_overflow [OF this]
  have "py_in (''Paper is too long by '' @ str_int (word_count ''a b c d e'' - 2) @ '' words.'')
          (evaluate_paper ''a b c d e'' 2)" .
  moreover have "str_int (word_count ''a b c d e'' - 2) = ''3''"
    by code_simp
  ultimately show ?thesis
    by simp
qed

text \<open>
  C5: for every text \<open>t\<close> in which at least one of the five required markers does not occur
  as a substring, \<open>evaluate_paper t max_words\<close> contains \<open>"Missing sections: "\<close> followed by
  exactly the missing markers, joined by \<open>", "\<close> in the canonical order of
  \<open>required_sections\<close>, and a full stop; in particular
  \<open>evaluate_paper "Title: A\nAbstract: B" 500\<close> contains
  \<open>"Missing sections: Introduction:, Proposed Method:, Conclusion:."\<close>.
\<close>

theorem evaluate_paper_lists_missing:
  "(\<forall>t max_words.
      (\<exists>sec \<in> set required_sections. \<not> py_in sec t) \<longrightarrow>
      py_in (''Missing sections: ''
               @ py_join '', '' (filter (\<lambda>sec. \<not> py_in sec t) required_sections) @ ''.'')
        (evaluate_paper t max_words))
   \<and> py_in ''Missing sections: Introduction:, Proposed Method:, Conclusion:.''
       (evaluate_paper ''Title: A\<newline>Abstract: B'' 500)"
proof (intro conjI allI impI)
  fix t max_words
  assume miss: "\<exists>sec \<in> set required_sections. \<not> py_in sec t"
  let ?m = "''Missing sections: '' @ py_join '', '' (missing_sections t) @ ''.''"
  from miss have ne: "missing_sections t \<noteq> []"
    by (auto simp: missing_sections_def filter_empty_conv)
  have "py_in ?m (evaluate_paper t max_words)"
  proof (cases "word_count t > max_words")
    case True
    with ne have "evaluate_paper t max_words
        = (''Paper is too long by '' @ str_int (word_count t - max_words) @ '' words. '') @ ?m"
      by (simp add: evaluate_paper_too_long_and_missing)
    then show ?thesis
      by (simp only: py_in_append_right)
  next
    case False
    with ne have "evaluate_paper t max_words = [] @ ?m"
      by (simp add: evaluate_paper_missing)
    then show ?thesis
      by (simp only: py_in_append_right)
  qed
  then show "py_in (''Missing sections: ''
               @ py_join '', '' (filter (\<lambda>sec. \<not> py_in sec t) required_sections) @ ''.'')
        (evaluate_paper t max_words)"
    by (simp only: missing_sections_def)
next
  show "py_in ''Missing sections: Introduction:, Proposed Method:, Conclusion:.''
       (evaluate_paper ''Title: A\<newline>Abstract: B'' 500)"
    by code_simp
qed

theorem evaluate_paper_lists_missing_witness:
  "\<not> py_in ''Title:'' ''Abstract: x''
   \<and> py_in ''Missing sections: Title:, Introduction:, Proposed Method:, Conclusion:.''
       (evaluate_paper ''Abstract: x'' 0)"
proof -
  have no_title: "\<not> py_in ''Title:'' ''Abstract: x''"
    by code_simp
  then have "\<exists>sec \<in> set required_sections. \<not> py_in sec ''Abstract: x''"
    by (simp add: required_sections_def)
  with evaluate_paper_lists_missing
  have "py_in (''Missing sections: ''
          @ py_join '', '' (filter (\<lambda>sec. \<not> py_in sec ''Abstract: x'') required_sections) @ ''.'')
        (evaluate_paper ''Abstract: x'' 0)"
    by blast
  moreover have "filter (\<lambda>sec. \<not> py_in sec ''Abstract: x'') required_sections
      = [''Title:'', ''Introduction:'', ''Proposed Method:'', ''Conclusion:'']"
    by code_simp
  ultimately show ?thesis
    using no_title by simp
qed

lemma rev_dropWhile_takeWhile:
  "y = rev (dropWhile P (rev y)) @ rev (takeWhile P (rev y))"
  by (metis rev_append rev_rev_ident takeWhile_dropWhile_id)

lemma strip_decompose: "\<exists>ps ss. t = ps @ strip t @ ss"
proof -
  let ?y = "dropWhile isspace t"
  have "t = takeWhile isspace t @ ?y"
    by simp
  also have "?y = strip t @ rev (takeWhile isspace (rev ?y))"
    unfolding strip_def by (rule rev_dropWhile_takeWhile)
  finally show ?thesis
    by blast
qed

lemma sublist_strip: "sublist (strip t) t"
  using strip_decompose [of t] by (auto simp: sublist_def)

lemma strip_Nil: "strip [] = []"
  by (simp add: strip_def)

lemma strip_strip: "strip (strip t) = strip t"
proof (cases "strip t = []")
  case True
  then show ?thesis
    by (simp add: strip_Nil)
next
  case False
  let ?y = "dropWhile isspace t"
  let ?z = "dropWhile isspace (rev ?y)"
  from False have z: "?z \<noteq> []"
    by (simp add: strip_def)
  then have "\<not> isspace (hd ?z)"
    by (rule hd_dropWhile)
  with z have l: "\<not> isspace (last (strip t))"
    by (simp add: strip_def last_rev)
  have y: "?y \<noteq> []"
  proof
    assume "?y = []"
    then have "?z = []"
      by (simp only: rev.simps dropWhile.simps)
    with z show False ..
  qed
  then have hy: "\<not> isspace (hd ?y)"
    by (rule hd_dropWhile)
  have "?y = strip t @ rev (takeWhile isspace (rev ?y))"
    unfolding strip_def by (rule rev_dropWhile_takeWhile)
  with False have "hd ?y = hd (strip t)"
    by (metis hd_append2)
  with hy have h: "\<not> isspace (hd (strip t))"
    by simp
  from strip_trailing [OF False h l, of "[]"] show ?thesis
    by simp
qed

lemma sublist_trans: "sublist xs ys \<Longrightarrow> sublist ys zs \<Longrightarrow> sublist xs zs"
  by (auto simp: sublist_def) (metis append.assoc)

lemma lazy_body_SomeD:
  "lazy_body b = Some g \<Longrightarrow> \<exists>rest. b = g @ closing_fence @ rest"
proof (induction b arbitrary: g)
  case Nil
  then show ?case by simp
next
  case (Cons c cs)
  show ?case
  proof (cases "prefix closing_fence (c # cs)")
    case True
    with Cons.prems show ?thesis
      by (auto simp: prefix_def)
  next
    case False
    with Cons.prems obtain g' where g': "lazy_body cs = Some g'" "g = c # g'"
      by auto
    from Cons.IH [OF g'(1)] g'(2) show ?thesis
      by auto
  qed
qed

lemma lazy_body_closing: "lazy_body b = Some g \<Longrightarrow> sublist closing_fence b"
  by (auto dest!: lazy_body_SomeD simp: sublist_def)

lemma lazy_body_minimal: "lazy_body b = Some g \<Longrightarrow> \<not> sublist closing_fence g"
proof (induction b arbitrary: g)
  case Nil
  then show ?case by simp
next
  case (Cons c cs)
  show ?case
  proof (cases "prefix closing_fence (c # cs)")
    case True
    with Cons.prems show ?thesis
      by (simp add: closing_fence_def)
  next
    case False
    with Cons.prems obtain g' where g': "lazy_body cs = Some g'" "g = c # g'"
      by auto
    from lazy_body_SomeD [OF g'(1)] have "prefix g' cs"
      by auto
    then have "prefix (c # g') (c # cs)"
      by simp
    with False have "\<not> prefix closing_fence (c # g')"
      using prefix_order.trans by blast
    with Cons.IH [OF g'(1)] g'(2) show ?thesis
      by (simp add: sublist_Cons_right)
  qed
qed

lemma lazy_body_append: "lazy_body b = Some g \<Longrightarrow> lazy_body (b @ ss) = Some g"
proof (induction b arbitrary: g)
  case Nil
  then show ?case by simp
next
  case (Cons c cs)
  show ?case
  proof (cases "prefix closing_fence (c # cs)")
    case True
    then have "prefix closing_fence (c # cs @ ss)"
      by (metis append_Cons prefix_prefix)
    with True Cons.prems show ?thesis
      by simp
  next
    case False
    with Cons.prems obtain g' where g': "lazy_body cs = Some g'" "g = c # g'"
      by auto
    from lazy_body_SomeD [OF g'(1)] obtain rest where cs: "cs = g' @ closing_fence @ rest"
      by blast
    have "\<not> prefix closing_fence (c # cs @ ss)"
    proof
      assume "prefix closing_fence (c # cs @ ss)"
      moreover have "length closing_fence \<le> length (c # cs)"
        using cs by simp
      ultimately have "prefix closing_fence (c # cs)"
        by (metis append_Cons prefix_length_prefix prefixI)
      with False show False ..
    qed
    with Cons.IH [OF g'(1)] g'(2) show ?thesis
      by simp
  qed
qed

lemma lazy_body_exact:
  "\<not> sublist closing_fence body \<Longrightarrow> lazy_body (body @ closing_fence @ rest) = Some body"
proof (induction body)
  case Nil
  then show ?case
    by (simp add: closing_fence_def)
next
  case (Cons c cs)
  from Cons.prems have np: "\<not> prefix closing_fence (c # cs)" and ns: "\<not> sublist closing_fence cs"
    by (simp_all add: sublist_Cons_right)
  have "\<not> prefix closing_fence (c # cs @ closing_fence @ rest)"
  proof
    assume p: "prefix closing_fence (c # cs @ closing_fence @ rest)"
    show False
    proof (cases "length cs < 3")
      case True
      then consider "cs = []" | d where "cs = [d]" | d e where "cs = [d, e]"
        by (cases cs rule: list.exhaust; simp; (rename_tac a as, case_tac as; simp; (rename_tac b bs, case_tac bs; simp)))
      then show False
        using p by cases (auto simp: closing_fence_def)
    next
      case False
      then have "length closing_fence \<le> length (c # cs)"
        by (simp add: closing_fence_def)
      with p have "prefix closing_fence (c # cs)"
        by (metis append_Cons prefix_length_prefix prefixI)
      with np show False ..
    qed
  qed
  with Cons.IH [OF ns] show ?case
    by simp
qed

lemma newline_body_closing: "newline_body r = Some g \<Longrightarrow> sublist closing_fence r"
  by (cases r) (auto simp: newline_body_def sublist_Cons_right dest: lazy_body_closing split: if_splits)

lemma newline_body_minimal: "newline_body r = Some g \<Longrightarrow> \<not> sublist closing_fence g"
  by (auto simp: newline_body_def dest: lazy_body_minimal split: if_splits)

lemma newline_body_append: "newline_body r = Some g \<Longrightarrow> newline_body (r @ ss) = Some g"
  by (cases r) (auto simp: newline_body_def dest: lazy_body_append split: if_splits)

lemma match_at_closing: "match_at t = Some g \<Longrightarrow> sublist closing_fence t"
  by (auto simp: match_at_def split: if_splits option.splits
      dest!: newline_body_closing intro: sublist_trans [OF _ sublist_drop])

lemma match_at_minimal: "match_at t = Some g \<Longrightarrow> \<not> sublist closing_fence g"
  by (auto simp: match_at_def split: if_splits option.splits dest: newline_body_minimal)

lemma match_at_no_fence: "\<not> prefix ''```'' t \<Longrightarrow> match_at t = None"
  by (simp add: match_at_def)

lemma match_at_fence:
  "match_at (''```'' @ r) =
     (case (if prefix ''python'' r then newline_body (drop 6 r) else None) of
        Some g \<Rightarrow> Some g
      | None \<Rightarrow> newline_body r)"
  by (simp add: match_at_def split: option.splits)

lemma match_at_Nil: "match_at [] = None"
  by (simp add: match_at_def)

lemma newline_body_python: "newline_body (''python'' @ r) = None"
  by (simp add: newline_body_def)

lemma match_at_append:
  assumes "match_at t = Some g"
  shows "match_at (t @ ss) = Some g"
proof -
  from assms have "prefix ''```'' t"
    by (simp add: match_at_def split: if_splits)
  then obtain r where t: "t = ''```'' @ r"
    by (auto simp: prefix_def)
  show ?thesis
  proof (cases "prefix ''python'' r")
    case True
    then obtain r' where r: "r = ''python'' @ r'"
      by (auto simp: prefix_def)
    from assms have "newline_body r' = Some g"
      unfolding t r match_at_fence
      by (simp add: newline_body_python [simplified] split: option.splits)
    then have "newline_body (r' @ ss) = Some g"
      by (rule newline_body_append)
    then have "match_at (''```'' @ (''python'' @ r' @ ss)) = Some g"
      unfolding match_at_fence by simp
    then show ?thesis
      by (simp add: t r)
  next
    case False
    with assms have nb: "newline_body r = Some g"
      unfolding t match_at_fence by simp
    then have "prefix ''\<newline>'' r"
      by (simp add: newline_body_def split: if_splits)
    then have "\<not> prefix ''python'' (r @ ss)"
      by (cases r) auto
    moreover from nb have "newline_body (r @ ss) = Some g"
      by (rule newline_body_append)
    ultimately have "match_at (''```'' @ (r @ ss)) = Some g"
      unfolding match_at_fence by simp
    then show ?thesis
      by (simp add: t)
  qed
qed

lemma re_search_closing: "re_search t = Some g \<Longrightarrow> sublist closing_fence t"
proof (induction t)
  case Nil
  then show ?case
    by (simp add: match_at_Nil)
next
  case (Cons c cs)
  show ?case
  proof (cases "match_at (c # cs)")
    case None
    with Cons.prems have "re_search cs = Some g"
      by simp
    then have "sublist closing_fence cs"
      by (rule Cons.IH)
    then show ?thesis
      by (simp add: sublist_Cons_right)
  next
    case (Some g')
    then show ?thesis
      by (rule match_at_closing)
  qed
qed

lemma re_search_minimal: "re_search t = Some g \<Longrightarrow> \<not> sublist closing_fence g"
proof (induction t)
  case Nil
  then show ?case
    by (simp add: match_at_Nil)
next
  case (Cons c cs)
  then show ?case
    by (cases "match_at (c # cs)") (auto dest: match_at_minimal)
qed

lemma re_search_append: "re_search t \<noteq> None \<Longrightarrow> re_search (t @ ss) \<noteq> None"
proof (induction t)
  case Nil
  then show ?case
    by (simp add: match_at_Nil)
next
  case (Cons c cs)
  show ?case
  proof (cases "match_at (c # cs)")
    case None
    with Cons.prems have "re_search cs \<noteq> None"
      by simp
    then have "re_search (cs @ ss) \<noteq> None"
      by (rule Cons.IH)
    then show ?thesis
      by (cases "match_at (c # cs @ ss)") simp_all
  next
    case (Some g')
    then have "match_at ((c # cs) @ ss) = Some g'"
      by (rule match_at_append)
    then show ?thesis
      by simp
  qed
qed

lemma re_search_prepend: "re_search t \<noteq> None \<Longrightarrow> re_search (ps @ t) \<noteq> None"
proof (induction ps)
  case Nil
  then show ?case by simp
next
  case (Cons p ps)
  then show ?case
    by (cases "match_at (p # ps @ t)") simp_all
qed

lemma re_search_sublist:
  assumes "sublist s t" and "re_search t = None"
  shows "re_search s = None"
proof -
  from assms(1) obtain ps ss where t: "t = ps @ s @ ss"
    by (auto simp: sublist_def)
  show ?thesis
  proof (rule ccontr)
    assume "re_search s \<noteq> None"
    then have "re_search (s @ ss) \<noteq> None"
      by (rule re_search_append)
    then have "re_search (ps @ s @ ss) \<noteq> None"
      by (rule re_search_prepend)
    with assms(2) t show False
      by simp
  qed
qed

lemma re_search_no_closing: "\<not> sublist closing_fence t \<Longrightarrow> re_search t = None"
  by (cases "re_search t") (auto dest: re_search_closing)

lemma extract_text_idem: "extract_text (extract_text x) = extract_text x"
proof (cases "re_search x")
  case None
  with sublist_strip [of x] have "re_search (strip x) = None"
    by (rule re_search_sublist)
  with None show ?thesis
    by (simp add: extract_text_def strip_strip)
next
  case (Some g)
  then have "\<not> sublist closing_fence g"
    by (rule re_search_minimal)
  with sublist_strip [of g] have "\<not> sublist closing_fence (strip g)"
    using sublist_trans by blast
  then have "re_search (strip g) = None"
    by (rule re_search_no_closing)
  with Some show ?thesis
    by (simp add: extract_text_def strip_strip)
qed

lemma fence_count_zero: "fence_count t = 0 \<longleftrightarrow> re_search t = None"
  by (induction t) (auto simp: match_at_Nil)

lemma fence_count_pos: "match_at t \<noteq> None \<Longrightarrow> 1 \<le> fence_count (ps @ t)"
proof (induction ps)
  case Nil
  then show ?case
    by (cases t) (auto simp: match_at_Nil)
next
  case (Cons p ps)
  then show ?case
    by simp
qed

lemma single_fence:
  assumes "match_at t = Some g" and "fence_count (ps @ t) = 1"
  shows "re_search (ps @ t) = Some g"
  using assms(2)
proof (induction ps)
  case Nil
  with assms(1) show ?case
    by (cases t) (simp_all add: match_at_Nil)
next
  case (Cons p ps)
  from assms(1) have "1 \<le> fence_count (ps @ t)"
    by (intro fence_count_pos) simp
  with Cons.prems have "match_at (p # ps @ t) = None" and "fence_count (ps @ t) = 1"
    by (simp_all split: if_splits)
  with Cons.IH show ?case
    by simp
qed

lemma match_at_python_block:
  assumes "\<not> sublist closing_fence body"
  shows "match_at (''```python\<newline>'' @ body @ ''\<newline>```\<newline>'' @ post) = Some body"
proof -
  have "lazy_body (body @ closing_fence @ (''\<newline>'' @ post)) = Some body"
    using assms by (rule lazy_body_exact)
  then have "newline_body (''\<newline>'' @ body @ ''\<newline>```\<newline>'' @ post) = Some body"
    by (simp add: newline_body_def closing_fence_def)
  then have "match_at (''```'' @ (''python\<newline>'' @ body @ ''\<newline>```\<newline>'' @ post)) = Some body"
    unfolding match_at_fence by simp
  then show ?thesis
    by simp
qed

lemma extract_text_python_block:
  assumes "x = pre @ ''\<newline>```python\<newline>'' @ body @ ''\<newline>```\<newline>'' @ post"
    and "fence_count x = 1"
    and "\<not> py_in ''\<newline>```'' body"
  shows "extract_text x = strip body"
proof -
  let ?t = "''```python\<newline>'' @ body @ ''\<newline>```\<newline>'' @ post"
  from assms(3) have "\<not> sublist closing_fence body"
    by (simp add: py_in_iff_sublist closing_fence_def)
  then have "match_at ?t = Some body"
    by (rule match_at_python_block)
  moreover from assms(1,2) have "fence_count ((pre @ ''\<newline>'') @ ?t) = 1"
    by simp
  ultimately have "re_search ((pre @ ''\<newline>'') @ ?t) = Some body"
    by (rule single_fence)
  with assms(1) show ?thesis
    by (simp add: extract_text_def)
qed

lemma extract_text_no_fence: "fence_count x = 0 \<Longrightarrow> extract_text x = strip x"
  by (simp add: fence_count_zero extract_text_def)

subsection \<open>Claims about \<open>extract_text\<close>\<close>

text \<open>
  C7 (as stated): for every \<open>pre\<close>, \<open>BODY\<close>, \<open>post\<close> such that the input is exactly
  \<open>pre\n```python\nBODY\n```\npost\<close> and contains exactly one fenced block,
  \<open>extract_text\<close> returns \<open>BODY\<close> trimmed. It does not when \<open>BODY\<close> has a line that starts
  with three backticks: the lazy group ends at the first newline followed by three
  backticks. With \<open>pre = p\<close>, \<open>BODY = A\n```B\<close> and \<open>post = q\<close> the pattern matches at one
  position only, and the result is \<open>A\<close>.
\<close>

theorem extract_text_body_with_fence_line:
  "fence_count (''p'' @ ''\<newline>```python\<newline>'' @ ''A\<newline>```B'' @ ''\<newline>```\<newline>'' @ ''q'') = 1
   \<and> extract_text (''p'' @ ''\<newline>```python\<newline>'' @ ''A\<newline>```B'' @ ''\<newline>```\<newline>'' @ ''q'') = ''A''
   \<and> extract_text (''p'' @ ''\<newline>```python\<newline>'' @ ''A\<newline>```B'' @ ''\<newline>```\<newline>'' @ ''q'')
       \<noteq> strip ''A\<newline>```B''"
  by code_simp

text \<open>
  C7 (amended): for every \<open>pre\<close>, \<open>BODY\<close>, \<open>post\<close> such that the input is exactly
  \<open>pre\n```python\nBODY\n```\npost\<close>, the fence pattern matches at exactly one position of
  the input, and \<open>BODY\<close> contains no newline immediately followed by three backticks,
  \<open>extract_text\<close> returns \<open>BODY\<close> trimmed; for every input in which the pattern matches
  nowhere, \<open>extract_text\<close> returns the input trimmed; and \<open>extract_text\<close> is idempotent.
\<close>

theorem extract_text_round_trip:
  "(\<forall>pre body post.
      fence_count (pre @ ''\<newline>```python\<newline>'' @ body @ ''\<newline>```\<newline>'' @ post) = 1
      \<and> \<not> py_in ''\<newline>```'' body
      \<longrightarrow> extract_text (pre @ ''\<newline>```python\<newline>'' @ body @ ''\<newline>```\<newline>'' @ post)
            = strip body)
   \<and> (\<forall>x. fence_count x = 0 \<longrightarrow> extract_text x = strip x)
   \<and> (\<forall>x. extract_text (extract_text x) = extract_text x)"
  using extract_text_python_block extract_text_no_fence extract_text_idem
  by blast

theorem extract_text_round_trip_witness:
  "extract_text (''Some text'' @ ''\<newline>```python\<newline>'' @ ''  Title: Test Paper '' @ ''\<newline>```\<newline>'' @ ''bye'')
     = ''Title: Test Paper''
   \<and> extract_text '' Title: Direct Text Paper '' = ''Title: Direct Text Paper''"
proof -
  have one: "fence_count
      (''Some text'' @ ''\<newline>```python\<newline>'' @ ''  Title: Test Paper '' @ ''\<newline>```\<newline>'' @ ''bye'') = 1
      \<and> \<not> py_in ''\<newline>```'' ''  Title: Test Paper ''"
    by code_simp
  have none: "fence_count '' Title: Direct Text Paper '' = 0"
    by code_simp
  have s1: "strip ''  Title: Test Paper '' = ''Title: Test Paper''"
    by code_simp
  have s2: "strip '' Title: Direct Text Paper '' = ''Title: Direct Text Paper''"
    by code_simp
  note first = extract_text_round_trip [THEN conjunct1, rule_format, OF one]
  note second = extract_text_round_trip [THEN conjunct2, THEN conjunct1, rule_format, OF none]
  from first second show ?thesis
    by (simp only: s1 s2)
qed

subsection \<open>Facts about the effects of the methods\<close>

lemma files_after_Nil [simp]: "files_after [] F = F"
  by (simp add: files_after_def)

lemma files_after_Cons [simp]: "files_after (e # es) F = files_after es (apply_event e F)"
  by (simp add: files_after_def)

lemma files_after_append: "files_after (a @ b) F = files_after b (files_after a F)"
  by (simp add: files_after_def)

lemma feedback_matches_file_Cons:
  "feedback_matches_file F (e # es) =
     ((case e of
         Print (IterationFeedback i feedback) \<Rightarrow>
           (case F file_name of
              None \<Rightarrow> False
            | Some d \<Rightarrow> feedback = evaluate_paper d 500
                        \<and> prefix [GenerateCall (refine_prompt d feedback)] es)
       | _ \<Rightarrow> True)
      \<and> feedback_matches_file (apply_event e F) es)"
proof (cases e)
  case (Print l)
  then show ?thesis
    by (cases l) simp_all
qed simp_all

lemma feedback_matches_file_appendI:
  "feedback_matches_file F a \<Longrightarrow> feedback_matches_file (files_after a F) b
     \<Longrightarrow> feedback_matches_file F (a @ b)"
proof (induction a arbitrary: F)
  case Nil
  then show ?case by simp
next
  case (Cons e a)
  from Cons.prems have "feedback_matches_file (apply_event e F) (a @ b)"
    by (intro Cons.IH) (simp_all add: feedback_matches_file_Cons [of F e])
  with Cons.prems(1) show ?case
    by (auto simp: feedback_matches_file_Cons [of F e] split: event.splits line.splits option.splits)
qed

lemma feedback_matches_file_appendD:
  "feedback_matches_file F (a @ b) \<Longrightarrow> feedback_matches_file (files_after a F) b"
proof (induction a arbitrary: F)
  case Nil
  then show ?case by simp
next
  case (Cons e a)
  from Cons.prems have "feedback_matches_file (apply_event e F) (a @ b)"
    by (simp add: feedback_matches_file_Cons [of F e])
  then show ?case
    by (simp add: Cons.IH)
qed

lemma feedback_matches_file_prefix:
  assumes "feedback_matches_file F es"
    and "prefix (p @ [Print (IterationFeedback i feedback)]) es"
  shows "\<exists>d. files_after p F file_name = Some d \<and> feedback = evaluate_paper d 500
    \<and> prefix (p @ [Print (IterationFeedback i feedback), GenerateCall (refine_prompt d feedback)]) es"
proof -
  from assms(2) obtain rest where es: "es = p @ (Print (IterationFeedback i feedback) # rest)"
    by (auto simp: prefix_def)
  from assms(1) have "feedback_matches_file F (p @ (Print (IterationFeedback i feedback) # rest))"
    by (simp only: es)
  then have
    "feedback_matches_file (files_after p F) (Print (IterationFeedback i feedback) # rest)"
    by (rule feedback_matches_file_appendD)
  then obtain d where d: "files_after p F file_name = Some d" "feedback = evaluate_paper d 500"
    "prefix [GenerateCall (refine_prompt d feedback)] rest"
    by (cases "files_after p F file_name") auto
  from d(3) obtain rest' where "rest = GenerateCall (refine_prompt d feedback) # rest'"
    by (auto simp: prefix_def)
  with es have "es = (p @ [Print (IterationFeedback i feedback),
      GenerateCall (refine_prompt d feedback)]) @ rest'"
    by simp
  then have "prefix (p @ [Print (IterationFeedback i feedback),
      GenerateCall (refine_prompt d feedback)]) es"
    by (simp only: prefix_def) blast
  with d(1,2) show ?thesis
    by blast
qed

lemma refine_prompt_inject:
  "refine_prompt d feedback = refine_prompt d' feedback \<Longrightarrow> d = d'"
  by (simp add: refine_prompt_def)

lemma schedule_generate_starts:
  "prefix [GenerateCall prompt] (schedule_generate self prompt @ es)"
  by (simp add: schedule_generate_def)

lemma feedback_matches_file_generate: "feedback_matches_file F (schedule_generate self prompt)"
  by (simp add: schedule_generate_def)

lemma files_after_generate: "files_after (schedule_generate self prompt) F = F"
  by (simp add: schedule_generate_def)

lemma generate_paper_events:
  "events (snd (generate_paper self P prompt w)) = events w @ schedule_generate self prompt"
  by (simp add: generate_paper_def schedule_generate_def emit_def Let_def split: sum.splits)

lemma generate_paper_files: "files (snd (generate_paper self P prompt w)) = files w"
  by (simp add: generate_paper_def emit_def Let_def split: sum.splits)


lemma generate_paper_test_mode:
  "test_mode self \<Longrightarrow> fst (generate_paper self P prompt w) = Inr dummy_paper"
  by (simp add: generate_paper_def Let_def)


lemma step_events:
  "events (print_out (IterationFeedback k fb) (write_file file_name d w))
     = events w @ [FileWrite file_name d, Print (IterationFeedback k fb)]"
  "files (print_out (IterationFeedback k fb) (write_file file_name d w)) = (files w)(file_name \<mapsto> d)"
  "stdout (print_out (IterationFeedback k fb) (write_file file_name d w))
     = stdout w @ [''Iteration '' @ str_int (int k) @ '' feedback: '' @ fb]"
  by (simp_all add: print_out_def write_file_def emit_def)

lemma refine_loop_Suc:
  "refine_loop self P i (Suc n) d w =
     (case generate_paper self P (refine_prompt d (evaluate_paper d 500))
             (print_out (IterationFeedback (i + 1) (evaluate_paper d 500)) (write_file file_name d w)) of
        (Inl e, w3) \<Rightarrow> (Inl e, w3)
      | (Inr refined, w3) \<Rightarrow> refine_loop self P (i + 1) n refined w3)"
  by (simp add: Let_def refine_paper_def)

lemma refine_loop_effects:
  "\<exists>es. events (snd (refine_loop self P i n d w)) = events w @ es
     \<and> files (snd (refine_loop self P i n d w)) = files_after es (files w)
     \<and> (\<forall>F. feedback_matches_file F es)"
proof (induction n arbitrary: i d w)
  case 0
  have "events (snd (refine_loop self P i 0 d w)) = events w @ []
     \<and> files (snd (refine_loop self P i 0 d w)) = files_after [] (files w)
     \<and> (\<forall>F. feedback_matches_file F [])"
    by simp
  then show ?case ..
next
  case (Suc n)
  let ?fb = "evaluate_paper d 500"
  let ?w2 = "print_out (IterationFeedback (i + 1) ?fb) (write_file file_name d w)"
  let ?g = "generate_paper self P (refine_prompt d ?fb) ?w2"
  let ?step = "[FileWrite file_name d, Print (IterationFeedback (i + 1) ?fb)]
                 @ schedule_generate self (refine_prompt d ?fb)"
  have ev: "events (snd ?g) = events w @ ?step"
    by (simp add: generate_paper_events step_events)
  have fl: "files (snd ?g) = files_after ?step (files w)"
    by (simp add: generate_paper_files step_events files_after_append files_after_generate)
  have ok: "feedback_matches_file F ?step" for F
    using schedule_generate_starts [of "refine_prompt d ?fb" self "[]"]
    by (simp add: feedback_matches_file_generate)
  obtain res w3 where g: "?g = (res, w3)"
    by (cases ?g)
  show ?case
  proof (cases res)
    case (Inl e)
    have "refine_loop self P i (Suc n) d w = (Inl e, snd ?g)"
      unfolding refine_loop_Suc g Inl by simp
    with ev fl ok show ?thesis
      by (metis snd_conv)
  next
    case (Inr refined)
    have r: "refine_loop self P i (Suc n) d w = refine_loop self P (i + 1) n refined (snd ?g)"
      unfolding refine_loop_Suc g Inr by simp
    from Suc.IH [of "i + 1" refined "snd ?g"] obtain es where
      es: "events (snd (refine_loop self P (i + 1) n refined (snd ?g))) = events (snd ?g) @ es"
        "files (snd (refine_loop self P (i + 1) n refined (snd ?g))) = files_after es (files (snd ?g))"
        "\<forall>F. feedback_matches_file F es"
      by blast
    have "events (snd (refine_loop self P i (Suc n) d w)) = events w @ (?step @ es)"
      by (simp only: r es(1) ev append_assoc)
    moreover have "files (snd (refine_loop self P i (Suc n) d w)) = files_after (?step @ es) (files w)"
      by (simp only: r es(2) fl files_after_append)
    moreover have "\<forall>F. feedback_matches_file F (?step @ es)"
      using ok es(3) by (blast intro: feedback_matches_file_appendI)
    ultimately show ?thesis
      by blast
  qed
qed




lemma fetch_latest_papers_events:
  "events (snd (fetch_latest_papers self P max_results query w))
     = events w @ [ArxivSearch query max_results]"
  "files (snd (fetch_latest_papers self P max_results query w)) = files w"
  "stdout (snd (fetch_latest_papers self P max_results query w)) = stdout w"
  by (simp_all add: fetch_latest_papers_def emit_def Let_def split: sum.splits)

lemma final_events:
  "events (write_file file_name d (print_out (FinalPaper d) (print_out FinalBanner w)))
     = events w @ [Print FinalBanner, Print (FinalPaper d), FileWrite file_name d]"
  "files (write_file file_name d (print_out (FinalPaper d) (print_out FinalBanner w)))
     = (files w)(file_name \<mapsto> d)"
  "stdout (write_file file_name d (print_out (FinalPaper d) (print_out FinalBanner w)))
     = stdout w @ [''\<newline>Final Version of the Paper:'', d]"
  by (simp_all add: print_out_def write_file_def emit_def)

lemma run_cases:
  obtains
    (search_failed) e where
      "fetch_latest_papers self P 5 default_query w = (Inl e, snd (fetch_latest_papers self P 5 default_query w))"
      "run self P w = (Inl e, snd (fetch_latest_papers self P 5 default_query w))"
  | (generate_failed) papers w1 e where
      "fetch_latest_papers self P 5 default_query w = (Inr papers, w1)"
      "fst (generate_paper self P (base_prompt papers) w1) = Inl e"
      "run self P w = (Inl e, snd (generate_paper self P (base_prompt papers) w1))"
  | (loop_failed) papers w1 d w2 e where
      "fetch_latest_papers self P 5 default_query w = (Inr papers, w1)"
      "generate_paper self P (base_prompt papers) w1 = (Inr d, w2)"
      "fst (refine_loop self P 0 (nat (iterations self)) d w2) = Inl e"
      "run self P w = (Inl e, snd (refine_loop self P 0 (nat (iterations self)) d w2))"
  | (completed) papers w1 d w2 final w3 where
      "fetch_latest_papers self P 5 default_query w = (Inr papers, w1)"
      "generate_paper self P (base_prompt papers) w1 = (Inr d, w2)"
      "refine_loop self P 0 (nat (iterations self)) d w2 = (Inr final, w3)"
      "run self P w = (Inr (),
         write_file file_name final (print_out (FinalPaper final) (print_out FinalBanner w3)))"
proof -
  obtain r1 w1 where f: "fetch_latest_papers self P 5 default_query w = (r1, w1)"
    by (cases "fetch_latest_papers self P 5 default_query w")
  show ?thesis
  proof (cases r1)
    case (Inl e)
    with f show ?thesis
      by (intro search_failed [of e]) (simp_all add: run_def)
  next
    case papers: (Inr papers)
    obtain r2 w2 where g: "generate_paper self P (base_prompt papers) w1 = (r2, w2)"
      by (cases "generate_paper self P (base_prompt papers) w1")
    show ?thesis
    proof (cases r2)
      case (Inl e)
      with f papers g show ?thesis
        by (intro generate_failed [of papers w1 e]) (simp_all add: run_def)
    next
      case d: (Inr d)
      obtain r3 w3 where l: "refine_loop self P 0 (nat (iterations self)) d w2 = (r3, w3)"
        by (cases "refine_loop self P 0 (nat (iterations self)) d w2")
      show ?thesis
      proof (cases r3)
        case (Inl e)
        with f papers g d l show ?thesis
          by (intro loop_failed [of papers w1 d w2 e]) (simp_all add: run_def)
      next
        case (Inr final)
        with f papers g d l show ?thesis
          by (intro completed [of papers w1 d w2 final w3]) (simp_all add: run_def)
      qed
    qed
  qed
qed

lemma new_events_append: "events w' = events w @ es \<Longrightarrow> new_events w w' = es"
  by (simp add: new_events_def)

lemma run_effects:
  "\<exists>es. events (snd (run self P w)) = events w @ ArxivSearch default_query 5 # es
     \<and> files (snd (run self P w)) = files_after es (files w)
     \<and> feedback_matches_file (files w) es"
proof (cases rule: run_cases [of self P w])
  case (search_failed e)
  then have "events (snd (run self P w)) = events w @ ArxivSearch default_query 5 # []
     \<and> files (snd (run self P w)) = files_after [] (files w)
     \<and> feedback_matches_file (files w) []"
    by (simp add: fetch_latest_papers_events)
  then show ?thesis ..
next
  case (generate_failed papers w1 e)
  let ?es = "schedule_generate self (base_prompt papers)"
  from generate_failed(1) have w1: "w1 = snd (fetch_latest_papers self P 5 default_query w)"
    by simp
  have "events (snd (run self P w)) = events w @ ArxivSearch default_query 5 # ?es
     \<and> files (snd (run self P w)) = files_after ?es (files w)
     \<and> feedback_matches_file (files w) ?es"
    by (simp add: generate_failed(3) w1 generate_paper_events generate_paper_files
        fetch_latest_papers_events files_after_generate feedback_matches_file_generate)
  then show ?thesis ..
next
  case (loop_failed papers w1 d w2 e)
  let ?sg = "schedule_generate self (base_prompt papers)"
  from loop_failed(1) have w1: "w1 = snd (fetch_latest_papers self P 5 default_query w)"
    by simp
  from loop_failed(2) have w2: "w2 = snd (generate_paper self P (base_prompt papers) w1)"
    by simp
  have e2: "events w2 = events w @ ArxivSearch default_query 5 # ?sg" and f2: "files w2 = files w"
    by (simp_all add: w2 w1 generate_paper_events generate_paper_files fetch_latest_papers_events)
  from refine_loop_effects [of self P 0 "nat (iterations self)" d w2] obtain es where
    es: "events (snd (refine_loop self P 0 (nat (iterations self)) d w2)) = events w2 @ es"
      "files (snd (refine_loop self P 0 (nat (iterations self)) d w2)) = files_after es (files w2)"
      "\<forall>F. feedback_matches_file F es"
    by blast
  have "feedback_matches_file (files w) (?sg @ es)"
    by (intro feedback_matches_file_appendI feedback_matches_file_generate es(3) [rule_format])
  then have "events (snd (run self P w)) = events w @ ArxivSearch default_query 5 # (?sg @ es)
     \<and> files (snd (run self P w)) = files_after (?sg @ es) (files w)
     \<and> feedback_matches_file (files w) (?sg @ es)"
    by (simp add: loop_failed(4) es(1,2) e2 f2 files_after_append files_after_generate)
  then show ?thesis ..
next
  case (completed papers w1 d w2 final w3)
  let ?sg = "schedule_generate self (base_prompt papers)"
  let ?fin = "[Print FinalBanner, Print (FinalPaper final), FileWrite file_name final]"
  from completed(1) have w1: "w1 = snd (fetch_latest_papers self P 5 default_query w)"
    by simp
  from completed(2) have w2: "w2 = snd (generate_paper self P (base_prompt papers) w1)"
    by simp
  from completed(3) have w3: "w3 = snd (refine_loop self P 0 (nat (iterations self)) d w2)"
    by simp
  have e2: "events w2 = events w @ ArxivSearch default_query 5 # ?sg" and f2: "files w2 = files w"
    by (simp_all add: w2 w1 generate_paper_events generate_paper_files fetch_latest_papers_events)
  from refine_loop_effects [of self P 0 "nat (iterations self)" d w2] obtain es where
    es: "events w3 = events w2 @ es" "files w3 = files_after es (files w2)"
      "\<forall>F. feedback_matches_file F es"
    unfolding w3 by blast
  have fin: "feedback_matches_file F ?fin" for F
    by simp
  have "feedback_matches_file (files w) (?sg @ es @ ?fin)"
    by (intro feedback_matches_file_appendI feedback_matches_file_generate
        es(3) [rule_format] fin)
  then have "events (snd (run self P w)) = events w @ ArxivSearch default_query 5 # (?sg @ es @ ?fin)
     \<and> files (snd (run self P w)) = files_after (?sg @ es @ ?fin) (files w)
     \<and> feedback_matches_file (files w) (?sg @ es @ ?fin)"
    by (simp add: completed(4) final_events es(1,2) e2 f2 files_after_append files_after_generate)
  then show ?thesis ..
qed



lemma world0_simps: "events world0 = []" "files world0 = Map.empty" "stdout world0 = []"
  by (simp_all add: world0_def)

lemma run_test_agent_online_events:
  "events (snd (run test_agent online world0)) =
     [ArxivSearch default_query 5,
      GenerateCall (base_prompt [to_paper
        \<lparr>result_title = ''T'', result_summary = ''a\<newline>b'', result_entry_id = ''id''\<rparr>]),
      FileWrite file_name dummy_paper,
      Print (IterationFeedback 1 (evaluate_paper dummy_paper 500)),
      GenerateCall (refine_prompt dummy_paper (evaluate_paper dummy_paper 500)),
      Print FinalBanner,
      Print (FinalPaper dummy_paper),
      FileWrite file_name dummy_paper]"
  by (simp add: run_def fetch_latest_papers_def generate_paper_def refine_paper_def
      write_file_def print_out_def emit_def Let_def test_agent_def online_def world0_def)

lemma run_test_mode_one_iteration:
  assumes "test_mode self" and "iterations self = 1"
    and "arxiv_results P (events w) default_query 5 = Inr results"
  shows "fst (run self P w) = Inr ()"
    and "files (snd (run self P w)) file_name = Some dummy_paper"
  using assms
  by (simp_all add: run_def fetch_latest_papers_def generate_paper_def refine_paper_def
      write_file_def print_out_def emit_def Let_def)

subsection \<open>Claims about test mode\<close>

text \<open>
  C8: in test mode \<open>generate_paper\<close> returns the same fixed canned paper text for every
  prompt: for all prompts \<open>p1\<close> and \<open>p2\<close> the two results are equal, and both are the
  five-section dummy paper.
\<close>

theorem generate_paper_test_mode_canned:
  assumes "test_mode self"
  shows "fst (generate_paper self P p1 w1) = fst (generate_paper self P p2 w2)
    \<and> fst (generate_paper self P p1 w1) = Inr
        ''Title: Dummy Research Paper\<newline>Abstract: This is a dummy abstract for testing purposes.\<newline>Introduction: An introduction to the dummy paper.\<newline>Proposed Method: A dummy method is proposed.\<newline>Conclusion: The paper concludes with dummy insights.''"
  using assms by (simp add: generate_paper_test_mode dummy_paper_def)

theorem generate_paper_test_mode_canned_witness:
  "fst (generate_paper test_agent offline ''one prompt'' world0)
     = fst (generate_paper test_agent offline ''another prompt'' world0)
   \<and> fst (generate_paper test_agent offline ''one prompt'' world0) = Inr
        ''Title: Dummy Research Paper\<newline>Abstract: This is a dummy abstract for testing purposes.\<newline>Introduction: An introduction to the dummy paper.\<newline>Proposed Method: A dummy method is proposed.\<newline>Conclusion: The paper concludes with dummy insights.''"
proof -
  have "test_mode test_agent"
    by (simp add: test_agent_def)
  then show ?thesis
    by (rule generate_paper_test_mode_canned)
qed

text \<open>
  C1: in test mode every provider call is replaced with canned data, so that a full run
  performs no outbound provider request; in particular \<open>fetch_latest_papers\<close>, as \<open>run\<close>
  invokes it, does not contact the search provider. The code does contact it: the log of
  the run of the test-mode agent below starts with the search request. No chat completion
  request follows.
\<close>

theorem run_test_mode_sends_search_request:
  "test_mode test_agent
   \<and> events (snd (run test_agent online world0)) =
     [ArxivSearch ''interdisciplinary research AI biology physics'' 5,
      GenerateCall (base_prompt [to_paper
        \<lparr>result_title = ''T'', result_summary = ''a\<newline>b'', result_entry_id = ''id''\<rparr>]),
      FileWrite file_name dummy_paper,
      Print (IterationFeedback 1 (evaluate_paper dummy_paper 500)),
      GenerateCall (refine_prompt dummy_paper (evaluate_paper dummy_paper 500)),
      Print FinalBanner,
      Print (FinalPaper dummy_paper),
      FileWrite file_name dummy_paper]"
  using run_test_agent_online_events
  by (simp add: test_agent_def default_query_def)

text \<open>
  C3: the run of the test-mode agent with \<open>iterations = 1\<close> ends with the output file
  holding the canned paper. Where the search provider cannot be reached the run ends in
  the provider's error before anything is written.
\<close>

theorem run_test_mode_offline_writes_nothing:
  "test_mode test_agent \<and> iterations test_agent = 1
   \<and> fst (run test_agent offline world0) = Inl (SearchError ''connection failed'')
   \<and> files (snd (run test_agent offline world0)) ''generated_paper.txt'' = None
   \<and> events (snd (run test_agent offline world0))
       = [ArxivSearch ''interdisciplinary research AI biology physics'' 5]"
  by code_simp

subsection \<open>Claims about the driver loop\<close>




text \<open>
  C10: at the moment each \<open>Iteration {i} feedback\<close> line is emitted, the content of
  \<open>generated_paper.txt\<close> is exactly the draft from which that feedback was computed: for
  every point of the log of a run at which such a line is printed, the files after the
  effects before that point hold a text \<open>d\<close> in the output file, the feedback is the
  evaluation of \<open>d\<close>, and the effect that follows the line is the generator call on the
  refine prompt of \<open>d\<close> and that feedback, so that \<open>d\<close> is the draft the loop holds (a
  refine prompt determines its draft). This holds for every agent, every behaviour of the
  providers and every run, complete or aborted; the files at the end of the run are the
  files that the logged effects produce.
\<close>

theorem feedback_describes_current_file:
  "(\<forall>p i feedback.
      prefix (events w @ p @ [Print (IterationFeedback i feedback)])
        (events (snd (run self P w)))
      \<longrightarrow> (\<exists>d. files_after p (files w) file_name = Some d
                \<and> feedback = evaluate_paper d 500
                \<and> prefix (events w @ p @ [Print (IterationFeedback i feedback),
                                          GenerateCall (refine_prompt d feedback)])
                    (events (snd (run self P w)))))
   \<and> (\<forall>d d' feedback. refine_prompt d feedback = refine_prompt d' feedback \<longrightarrow> d = d')
   \<and> files (snd (run self P w)) = files_after (new_events w (snd (run self P w))) (files w)"
proof -
  from run_effects [of self P w] obtain es where
    ev: "events (snd (run self P w)) = events w @ ArxivSearch default_query 5 # es"
    and fl: "files (snd (run self P w)) = files_after es (files w)"
    and ok: "feedback_matches_file (files w) es"
    by blast
  from ok have ok': "feedback_matches_file (files w) (ArxivSearch default_query 5 # es)"
    by simp
  have "\<exists>d. files_after p (files w) file_name = Some d \<and> feedback = evaluate_paper d 500
      \<and> prefix (events w @ p @ [Print (IterationFeedback i feedback),
                                GenerateCall (refine_prompt d feedback)])
          (events (snd (run self P w)))"
    if "prefix (events w @ p @ [Print (IterationFeedback i feedback)]) (events (snd (run self P w)))"
    for p i feedback
  proof -
    from that have "prefix (p @ [Print (IterationFeedback i feedback)]) (ArxivSearch default_query 5 # es)"
      by (simp add: ev)
    with ok' obtain d where "files_after p (files w) file_name = Some d"
      "feedback = evaluate_paper d 500"
      "prefix (p @ [Print (IterationFeedback i feedback), GenerateCall (refine_prompt d feedback)])
         (ArxivSearch default_query 5 # es)"
      using feedback_matches_file_prefix by blast
    then show ?thesis
      by (simp only: ev same_prefix_prefix) blast
  qed
  moreover have "files (snd (run self P w))
      = files_after (new_events w (snd (run self P w))) (files w)"
    by (simp add: new_events_append [OF ev] fl)
  ultimately show ?thesis
    using refine_prompt_inject by blast
qed

theorem feedback_describes_current_file_witness:
  "prefix
     ([ArxivSearch default_query 5,
       GenerateCall (base_prompt [to_paper
         \<lparr>result_title = ''T'', result_summary = ''a\<newline>b'', result_entry_id = ''id''\<rparr>]),
       FileWrite file_name dummy_paper]
      @ [Print (IterationFeedback 1 (evaluate_paper dummy_paper 500))])
     (events (snd (run test_agent online world0)))
   \<and> files_after
       [ArxivSearch default_query 5,
        GenerateCall (base_prompt [to_paper
          \<lparr>result_title = ''T'', result_summary = ''a\<newline>b'', result_entry_id = ''id''\<rparr>]),
        FileWrite file_name dummy_paper]
       (files world0) file_name = Some dummy_paper
   \<and> prefix
     ([ArxivSearch default_query 5,
       GenerateCall (base_prompt [to_paper
         \<lparr>result_title = ''T'', result_summary = ''a\<newline>b'', result_entry_id = ''id''\<rparr>]),
       FileWrite file_name dummy_paper]
      @ [Print (IterationFeedback 1 (evaluate_paper dummy_paper 500)),
         GenerateCall (refine_prompt dummy_paper (evaluate_paper dummy_paper 500))])
     (events (snd (run test_agent online world0)))
   \<and> files (snd (run test_agent online world0)) file_name = Some dummy_paper"
proof -
  let ?p = "[ArxivSearch default_query 5,
       GenerateCall (base_prompt [to_paper
         \<lparr>result_title = ''T'', result_summary = ''a\<newline>b'', result_entry_id = ''id''\<rparr>]),
       FileWrite file_name dummy_paper]"
  let ?fb = "evaluate_paper dummy_paper 500"
  have pre: "prefix (?p @ [Print (IterationFeedback 1 ?fb)])
     (events (snd (run test_agent online world0)))"
    by (simp add: run_test_agent_online_events)
  then have hyp: "prefix (events world0 @ ?p @ [Print (IterationFeedback 1 ?fb)])
     (events (snd (run test_agent online world0)))"
    by (simp only: world0_simps append_Nil)
  note inst = feedback_describes_current_file [of world0 test_agent online]
  from inst [THEN conjunct1, rule_format, OF hyp] obtain d where
    d: "files_after ?p (files world0) file_name = Some d"
    and nxt: "prefix (events world0 @ ?p @ [Print (IterationFeedback 1 ?fb),
        GenerateCall (refine_prompt d ?fb)]) (events (snd (run test_agent online world0)))"
    by blast
  have held: "files_after ?p (files world0) file_name = Some dummy_paper"
    by simp
  with d have "d = dummy_paper"
    by simp
  with nxt have "prefix (?p @ [Print (IterationFeedback 1 ?fb),
        GenerateCall (refine_prompt dummy_paper ?fb)]) (events (snd (run test_agent online world0)))"
    by (simp only: world0_simps append_Nil)
  moreover have "files (snd (run test_agent online world0)) file_name = Some dummy_paper"
    by (simp add: inst [THEN conjunct2, THEN conjunct2] new_events_def
        run_test_agent_online_events world0_simps)
  ultimately show ?thesis
    using pre held by blast
qed

end
